theory Spec2Isabelle
  imports Main
begin

section \<open>Cells, rows and grids\<close>

text \<open>
  A decoded sheet is an array of rows, a row an array of cell values. The decoder is
  called with \<^verbatim>\<open>header: 1\<close>, so a cell is a string, a number, a boolean, \<^verbatim>\<open>null\<close>
  (an error cell) or absent. An absent cell inside a row (a hole of the array) reads as
  \<^verbatim>\<open>undefined\<close> and is modelled by the value \<open>Undefined\<close>; a read past the end of a row is
  written out in \<open>at\<close>. Numbers are modelled by the integers (the integral doubles in the
  safe range, whose string form is the decimal numeral); fractions, NaN and the infinities
  are left out of the model.
\<close>

datatype cell = Undefined | Null | Str string | Num int | Bool bool

type_synonym row = "cell list"
type_synonym grid = "row list"

text \<open>\<^verbatim>\<open>row[i]\<close>: JavaScript returns \<^verbatim>\<open>undefined\<close> out of range.\<close>

definition at :: "row \<Rightarrow> nat \<Rightarrow> cell" where
  "at r i = (if i < length r then r ! i else Undefined)"

text \<open>\<^verbatim>\<open>v !== undefined ? v : ''\<close>\<close>

definition orEmpty :: "cell \<Rightarrow> cell" where
  "orEmpty v = (if v \<noteq> Undefined then v else Str [])"

text \<open>
  \<^verbatim>\<open>Math.max(...data.map(row => row.length))\<close>. Both callers return before this line when
  \<^verbatim>\<open>data\<close> has no row, so the \<^verbatim>\<open>-Infinity\<close> of an empty argument list is never computed;
  the fold starts at 0, which changes nothing on a list of lengths that is not empty.
\<close>

definition maxCols :: "grid \<Rightarrow> nat" where
  "maxCols data = fold max (map length data) 0"

subsection \<open>transposeData\<close>

definition transposeData :: "grid \<Rightarrow> grid" where
  "transposeData data =
     (if data = [] then data
      else map (\<lambda>col. map (\<lambda>r. orEmpty (at r col)) data) [0 ..< maxCols data])"

subsection \<open>splitIntoColumnPairs\<close>

definition splitIntoColumnPairs :: "grid \<Rightarrow> grid list" where
  "splitIntoColumnPairs data =
     (if data = [] then [data]
      else if maxCols data \<le> 1 then [data]
      else map (\<lambda>col. map (\<lambda>r. [orEmpty (at r 0), orEmpty (at r col)]) data)
             [1 ..< maxCols data])"

section \<open>JavaScript values as strings and as conditions\<close>

text \<open>The decimal numeral of a number, as \<^verbatim>\<open>String(n)\<close> and a template literal give it.\<close>

definition digit :: "nat \<Rightarrow> char" where
  "digit n = ''0123456789'' ! (n mod 10)"

fun string_of_nat :: "nat \<Rightarrow> string" where
  "string_of_nat n = (if n < 10 then [digit n] else string_of_nat (n div 10) @ [digit n])"

declare string_of_nat.simps [simp del]

definition string_of_int :: "int \<Rightarrow> string" where
  "string_of_int i = (if i < 0 then CHR ''-'' # string_of_nat (nat (- i)) else string_of_nat (nat i))"

text \<open>\<^verbatim>\<open>String(v)\<close>, also the conversion of \<^verbatim>\<open>${v}\<close> and of \<^verbatim>\<open>' ' + v\<close>.\<close>

fun toString :: "cell \<Rightarrow> string" where
  "toString Undefined = ''undefined''"
| "toString Null = ''null''"
| "toString (Str s) = s"
| "toString (Num n) = string_of_int n"
| "toString (Bool b) = (if b then ''true'' else ''false'')"

text \<open>
  The value of a cell as a condition (\<^verbatim>\<open>v ? a : b\<close>, \<^verbatim>\<open>v || b\<close>): \<^verbatim>\<open>undefined\<close>,
  \<^verbatim>\<open>null\<close>, the empty string, the number 0 and \<^verbatim>\<open>false\<close> count as false.
\<close>

fun truthy :: "cell \<Rightarrow> bool" where
  "truthy Undefined = False"
| "truthy Null = False"
| "truthy (Str s) = (s \<noteq> [])"
| "truthy (Num n) = (n \<noteq> 0)"
| "truthy (Bool b) = b"

section \<open>Source tables and documents\<close>

text \<open>The object that \<open>handleFilesUpload\<close> stores for a decoded file.\<close>

record fileData =
  name :: string
  data :: grid
  originalName :: string

text \<open>
  The options object given to \<^verbatim>\<open>new Document\<close>: one title paragraph (a single text run)
  and one table of paragraphs. \<^verbatim>\<open>Packer.toBlob\<close> belongs to the document library; the
  blob is identified with the document it encodes, and the encoding is taken not to fail.
  The text of a cell is \<^verbatim>\<open>cell !== null && cell !== undefined ? String(cell) : ''\<close>.
  The decoder leaves a blank cell unassigned and never stores \<^verbatim>\<open>undefined\<close>, so an
  \<open>Undefined\<close> inside a row is a hole of the array: \<^verbatim>\<open>row.map\<close> calls its function only
  for the cells that are there, and a hole gets no cell in the row of the table.
\<close>

record document =
  title_text :: string
  title_bold :: bool
  title_size :: nat
  spacing_after :: nat
  table_rows :: "string list list"

definition createWordDocument :: "fileData \<Rightarrow> bool \<Rightarrow> cell \<Rightarrow> document" where
  "createWordDocument fd tr suffix =
     (let dataToExport = (if tr then transposeData (data fd) else data fd);
          tableRows = map (\<lambda>r. map (\<lambda>c. if c \<noteq> Null \<and> c \<noteq> Undefined
                                          then toString c else [])
                                 (filter (\<lambda>c. c \<noteq> Undefined) r)) dataToExport
      in \<lparr>title_text = ''Packing Sheet'' @ (if truthy suffix then '' '' @ toString suffix else []),
          title_bold = True,
          title_size = 32,
          spacing_after = 200,
          table_rows = tableRows\<rparr>)"

section \<open>Exports\<close>

text \<open>
  The state of the component that the exports read. The option \<^verbatim>\<open>transpose\<close> is named
  \<open>transpose_flag\<close> here, next to the list function of that name.
\<close>

record appState =
  files :: "fileData list"
  selectedFileIndex :: nat
  transpose_flag :: bool
  splitColumns :: bool

text \<open>
  What an export does, in order: \<^verbatim>\<open>saveAs(blob, name)\<close> of a document, \<^verbatim>\<open>saveAs\<close> of the
  generated archive, a wait of \<^verbatim>\<open>setTimeout\<close> milliseconds, an \<^verbatim>\<open>alert\<close>. No step of
  the model throws (the libraries are taken not to fail), so the \<^verbatim>\<open>catch\<close> block of an
  export has no branch here.
\<close>

datatype event =
    SaveAs document string
  | SaveAsZip "(string \<times> document) list" string
  | Delay nat
  | Alert string

text \<open>
  \<^verbatim>\<open>columnPairs[i][0]?.[1] || `column${i + 2}`\<close>, the same expression in the three exports.
\<close>

definition familyName :: "grid \<Rightarrow> nat \<Rightarrow> cell" where
  "familyName pair i =
     (let v = (case pair of [] \<Rightarrow> Undefined | r # _ \<Rightarrow> at r 1)
      in if truthy v then v else Str (''column'' @ string_of_nat (i + 2)))"

text \<open>
  The body that the three exports share in split mode: the document of pair \<open>i\<close> of a table
  and the name it is saved under.
\<close>

definition splitArtifact :: "fileData \<Rightarrow> grid \<Rightarrow> nat \<Rightarrow> string \<times> document" where
  "splitArtifact file pair i =
     (let fam = familyName pair i;
          blob = createWordDocument (file\<lparr>data := pair\<rparr>) False fam
      in (name file @ ''_'' @ toString fam @ ''.docx'', blob))"

text \<open>\<^verbatim>\<open>transpose ? transposeData(file.data) : file.data\<close>, the first line of every export.\<close>

definition exported :: "appState \<Rightarrow> fileData \<Rightarrow> grid" where
  "exported st file = (if transpose_flag st then transposeData (data file) else data file)"

definition downloadWordFile :: "appState \<Rightarrow> event list" where
  "downloadWordFile st =
     (if files st = [] then [Alert ''Please upload an Excel file first!'']
      else if \<not> selectedFileIndex st < length (files st) then [Alert ''No file selected!'']
      else
        (let currentFile = files st ! selectedFileIndex st;
             dataToExport = exported st currentFile
         in if splitColumns st then
              (let columnPairs = splitIntoColumnPairs dataToExport
               in concat (map (\<lambda>i.
                      (let (fileName, blob) = splitArtifact currentFile (columnPairs ! i) i
                       in SaveAs blob fileName #
                          (if i < length columnPairs - 1 then [Delay 300] else [])))
                    [0 ..< length columnPairs])
                  @ [Alert (''Successfully downloaded '' @ string_of_nat (length columnPairs)
                            @ '' Word documents!'')])
            else
              [SaveAs (createWordDocument currentFile (transpose_flag st) (Str []))
                 ((if name currentFile \<noteq> [] then name currentFile else ''converted'')
                  @ ''.docx'')]))"

text \<open>The events of iteration \<open>i\<close> of the loop of \<open>downloadAllWordFiles\<close>.\<close>

definition downloadAllStep :: "appState \<Rightarrow> nat \<Rightarrow> event list" where
  "downloadAllStep st i =
     (let file = files st ! i;
          dataToExport = exported st file
      in if splitColumns st then
           (let columnPairs = splitIntoColumnPairs dataToExport
            in concat (map (\<lambda>j.
                   (let (fileName, blob) = splitArtifact file (columnPairs ! j) j
                    in [SaveAs blob fileName, Delay 300]))
                 [0 ..< length columnPairs]))
         else
           SaveAs (createWordDocument file (transpose_flag st) (Str []))
             ((if name file \<noteq> [] then name file else ''converted_'' @ string_of_nat (i + 1))
              @ ''.docx'')
           # (if i < length (files st) - 1 then [Delay 300] else []))"

fun isSaveAs :: "event \<Rightarrow> bool" where
  "isSaveAs (SaveAs b f) = True"
| "isSaveAs e = False"

text \<open>\<^verbatim>\<open>totalDocs\<close> is incremented once with each \<^verbatim>\<open>saveAs\<close>.\<close>

definition downloadAllWordFiles :: "appState \<Rightarrow> event list" where
  "downloadAllWordFiles st =
     (if files st = [] then [Alert ''Please upload Excel files first!'']
      else
        (let evs = concat (map (downloadAllStep st) [0 ..< length (files st)]);
             totalDocs = length (filter isSaveAs evs)
         in evs @ [Alert (''Successfully downloaded '' @ string_of_nat totalDocs
                          @ '' Word document'' @ (if totalDocs > 1 then ''s'' else []) @ ''!'')]))"

subsection \<open>The archive\<close>

text \<open>
  The archive library keeps its entries in an object keyed by the path of the entry, and
  \<^verbatim>\<open>file(path, blob)\<close> assigns to that key: a path that is new is added after the others, a
  path already there has its blob replaced. Only the document entries are modelled, not
  the folder entries that the library keeps beside them.
\<close>

fun zip_file :: "(string \<times> document) list \<Rightarrow> string \<Rightarrow> document \<Rightarrow> (string \<times> document) list" where
  "zip_file [] path blob = [(path, blob)]"
| "zip_file ((p, b) # z) path blob =
     (if p = path then (p, blob) # z else (p, b) # zip_file z path blob)"

text \<open>The name and the document that iteration \<open>i\<close> of \<open>downloadZipFile\<close> gives to the folder.\<close>

definition zipStep :: "appState \<Rightarrow> nat \<Rightarrow> (string \<times> document) list" where
  "zipStep st i =
     (let file = files st ! i;
          dataToExport = exported st file
      in if splitColumns st then
           (let columnPairs = splitIntoColumnPairs dataToExport
            in map (\<lambda>j. splitArtifact file (columnPairs ! j) j) [0 ..< length columnPairs])
         else
           [((if name file \<noteq> [] then name file else ''converted_'' @ string_of_nat (i + 1))
              @ ''.docx'',
             createWordDocument file (transpose_flag st) (Str []))])"

definition zipAdded :: "appState \<Rightarrow> (string \<times> document) list" where
  "zipAdded st = concat (map (zipStep st) [0 ..< length (files st)])"

text \<open>\<^verbatim>\<open>zip.folder('converted_files')\<close> prefixes every path given to it.\<close>

definition folder_file :: "(string \<times> document) list \<Rightarrow> string \<times> document \<Rightarrow> (string \<times> document) list" where
  "folder_file z nb = zip_file z (''converted_files/'' @ fst nb) (snd nb)"

definition zipArchive :: "appState \<Rightarrow> (string \<times> document) list" where
  "zipArchive st = foldl folder_file [] (zipAdded st)"

definition downloadZipFile :: "appState \<Rightarrow> event list" where
  "downloadZipFile st =
     (if files st = [] then [Alert ''Please upload Excel files first!'']
      else
        (let totalDocs = length (zipAdded st)
         in [SaveAsZip (zipArchive st) ''converted_files.zip'',
             Alert (''Successfully created zip file with '' @ string_of_nat totalDocs
                    @ '' Word document'' @ (if totalDocs > 1 then ''s'' else []) @ ''!'')]))"

section \<open>Upload\<close>

text \<open>
  A file of the browser: its name and its bytes. The decoding steps inside the
  \<^verbatim>\<open>try\<close> block (\<^verbatim>\<open>arrayBuffer\<close>, \<^verbatim>\<open>XLSX.read\<close>, \<^verbatim>\<open>sheet_to_json\<close> of the first sheet)
  belong to the browser and to the spreadsheet library; they are the parameter \<open>decode\<close>,
  which gives the rows of the first sheet, or \<open>None\<close> where one of the steps throws.
\<close>

type_synonym bytes = "nat list"

record browserFile =
  file_name :: string
  file_bytes :: bytes

text \<open>
  \<^verbatim>\<open>/\.(xlsx|xls)$/i\<close>: the name ends with \<^verbatim>\<open>.xlsx\<close> or \<^verbatim>\<open>.xls\<close>, where each of the
  letters x, l and s is matched in either case.
\<close>

definition foldCase :: "char \<Rightarrow> char" where
  "foldCase c =
     (if c = CHR ''X'' then CHR ''x''
      else if c = CHR ''L'' then CHR ''l''
      else if c = CHR ''S'' then CHR ''s''
      else c)"

definition endsWith :: "string \<Rightarrow> string \<Rightarrow> bool" where
  "endsWith s e = (length e \<le> length s \<and> drop (length s - length e) s = e)"

definition isExcelName :: "string \<Rightarrow> bool" where
  "isExcelName n = (endsWith (map foldCase n) ''.xlsx'' \<or> endsWith (map foldCase n) ''.xls'')"

text \<open>
  \<^verbatim>\<open>name.replace(/\.[^/.]+$/, '')\<close>: the match can only start at the last dot of the name,
  and what follows that dot must be at least one character and hold no slash.
\<close>

definition stripExtension :: "string \<Rightarrow> string" where
  "stripExtension n =
     (let ext = takeWhile (\<lambda>c. c \<noteq> CHR ''.'') (rev n)
      in if length ext < length n \<and> ext \<noteq> [] \<and> CHR ''/'' \<notin> set ext
         then take (length n - length ext - 1) n
         else n)"

text \<open>
  What the upload does besides changing the state: the decoding of a file is started
  (with the name of the file), \<^verbatim>\<open>console.error\<close> is called (with the name of the file in
  the message).
\<close>

datatype uploadEvent = Decoding string | ConsoleError string

text \<open>
  The loop over the file list: the tables pushed to \<^verbatim>\<open>newFiles\<close>, and the events. A file
  whose decoding throws is caught by the \<^verbatim>\<open>catch\<close> of its own iteration.
\<close>

fun processFiles :: "(bytes \<Rightarrow> grid option) \<Rightarrow> browserFile list \<Rightarrow> fileData list \<times> uploadEvent list" where
  "processFiles decode [] = ([], [])"
| "processFiles decode (file # fileList) =
     (let (newFiles, evs) = processFiles decode fileList
      in if isExcelName (file_name file) then
           (case decode (file_bytes file) of
              Some jsonData \<Rightarrow>
                (\<lparr>name = stripExtension (file_name file), data = jsonData,
                  originalName = file_name file\<rparr> # newFiles,
                 Decoding (file_name file) # evs)
            | None \<Rightarrow>
                (newFiles,
                 Decoding (file_name file)
                 # ConsoleError (''Error reading file '' @ file_name file @ '':'') # evs))
         else (newFiles, evs))"

text \<open>
  \<open>handleFilesUpload\<close>: nothing happens on an empty list; otherwise the new tables are
  appended to the working set and the first of them is selected, when there is one. The
  upload is taken as one step: no other action on the working set runs in between.
\<close>

definition handleFilesUpload ::
  "(bytes \<Rightarrow> grid option) \<Rightarrow> browserFile list \<Rightarrow> appState \<Rightarrow> appState \<times> uploadEvent list" where
  "handleFilesUpload decode fileList st =
     (if fileList = [] then (st, [])
      else
        (let (newFiles, evs) = processFiles decode fileList
         in (if newFiles \<noteq> []
             then st\<lparr>files := files st @ newFiles, selectedFileIndex := length (files st)\<rparr>
             else st,
             evs)))"

section \<open>The normalizer of the specification\<close>

text \<open>
  Modelled from the spec: the TableNormalizer, which the source does not have as a function
  of its own (\<open>transposeData\<close> and \<open>splitIntoColumnPairs\<close> fill the missing cells while
  they read). The specification: every row is brought to the width of the widest row,
  absent cells become the empty string, and a grid of no rows is returned unchanged.
\<close>

definition normalize_grid :: "grid \<Rightarrow> grid" where
  "normalize_grid g =
     (if g = [] then g
      else map (\<lambda>r. map (\<lambda>c. orEmpty (at r c)) [0 ..< maxCols g]) g)"

text \<open>A grid is rectangular when all its rows have the same length.\<close>

definition rectangular :: "grid \<Rightarrow> bool" where
  "rectangular g = (\<forall>r \<in> set g. \<forall>r' \<in> set g. length r = length r')"

section \<open>Rules on the events of an export\<close>

text \<open>
  The delay rule of the exports, on a sequence of events: every \<open>Delay\<close> comes directly
  after the \<^verbatim>\<open>saveAs\<close> of a document and directly before the next one.
\<close>

fun delayOnlyBetween :: "event list \<Rightarrow> bool" where
  "delayOnlyBetween [] = True"
| "delayOnlyBetween (Delay n # es) = False"
| "delayOnlyBetween (SaveAs b f # Delay n # es) =
     (case es of SaveAs b' f' # es' \<Rightarrow> delayOnlyBetween es | _ \<Rightarrow> False)"
| "delayOnlyBetween (e # es) = delayOnlyBetween es"

text \<open>
  The documents that a sequence of events hands over: each saved document, and each
  document inside a saved archive.
\<close>

fun documents :: "event list \<Rightarrow> document list" where
  "documents [] = []"
| "documents (SaveAs b f # es) = b # documents es"
| "documents (SaveAsZip z f # es) = map snd z @ documents es"
| "documents (e # es) = documents es"

text \<open>
  The title rule of an export: the title is bold, and it reads "Packing Sheet" alone when
  the columns are not split, "Packing Sheet" with a space and a suffix that is not empty
  when they are.
\<close>

definition titled :: "appState \<Rightarrow> document \<Rightarrow> bool" where
  "titled st doc =
     (title_bold doc \<and>
      (if splitColumns st
       then \<exists>s. s \<noteq> [] \<and> title_text doc = ''Packing Sheet '' @ s
       else title_text doc = ''Packing Sheet''))"

section \<open>Facts about the width of a grid\<close>

lemma fold_max_ge: "(m::nat) \<le> fold max xs m"
  by (induction xs arbitrary: m) (auto intro: order_trans [OF max.cobounded2])

lemma fold_max_mem_le: "x \<in> set xs \<Longrightarrow> (x::nat) \<le> fold max xs m"
proof (induction xs arbitrary: m)
  case Nil
  then show ?case by simp
next
  case (Cons y ys)
  show ?case
  proof (cases "x = y")
    case True
    have "x \<le> max y m" using True by simp
    also have "\<dots> \<le> fold max ys (max y m)" by (rule fold_max_ge)
    finally show ?thesis by simp
  next
    case False
    with Cons.prems have "x \<in> set ys" by simp
    then show ?thesis using Cons.IH by simp
  qed
qed

lemma fold_max_cases: "fold max xs (m::nat) = m \<or> fold max xs m \<in> set xs"
proof (induction xs arbitrary: m)
  case Nil
  then show ?case by simp
next
  case (Cons y ys)
  from Cons.IH [of "max y m"] show ?case
    by (auto simp: max_def split: if_splits)
qed

lemma length_le_maxCols: "r \<in> set g \<Longrightarrow> length r \<le> maxCols g"
  unfolding maxCols_def by (rule fold_max_mem_le) simp

lemma maxCols_attained:
  assumes "0 < maxCols g"
  shows "\<exists>r \<in> set g. length r = maxCols g"
proof -
  from fold_max_cases [of "map length g" 0] assms
  have "maxCols g \<in> set (map length g)"
    unfolding maxCols_def by auto
  then show ?thesis by auto
qed

lemma maxCols_uniform:
  assumes "g \<noteq> []" and "\<forall>r \<in> set g. length r = w"
  shows "maxCols g = w"
proof (cases "0 < maxCols g")
  case True
  from maxCols_attained [OF True] assms(2) show ?thesis by auto
next
  case False
  from assms(1) obtain r where r: "r \<in> set g" by (cases g) auto
  from length_le_maxCols [OF r] False assms(2) r show ?thesis by auto
qed

lemma orEmpty_idem: "orEmpty (orEmpty v) = orEmpty v"
  by (simp add: orEmpty_def)

section \<open>transposeData on every grid\<close>

lemma length_transposeData:
  "g \<noteq> [] \<Longrightarrow> length (transposeData g) = maxCols g"
  by (simp add: transposeData_def)

lemma nth_transposeData:
  "g \<noteq> [] \<Longrightarrow> c < maxCols g \<Longrightarrow>
     transposeData g ! c = map (\<lambda>r. orEmpty (at r c)) g"
  by (simp add: transposeData_def)

text \<open>
  C6. For every grid, ragged or not, \<open>transposeData\<close> returns a grid of \<open>maxCols\<close> rows,
  each of as many cells as the input has rows, whose cell \<open>c, r\<close> is the input's cell
  \<open>r, c\<close>, the empty string standing in where the input row is too short or holds
  \<^verbatim>\<open>undefined\<close> there. The function is total (no read of it fails on a ragged grid), and
  the grid of no rows is returned as it is.
\<close>

theorem transposeData_spec:
  "transposeData [] = [] \<and>
   (g \<noteq> [] \<longrightarrow>
      length (transposeData g) = maxCols g \<and>
      (\<forall>c < maxCols g.
         length (transposeData g ! c) = length g \<and>
         (\<forall>r < length g.
            transposeData g ! c ! r =
              (if c < length (g ! r) \<and> g ! r ! c \<noteq> Undefined
               then g ! r ! c else Str []))))"
proof -
  have empty: "transposeData [] = []"
    by (simp add: transposeData_def)
  have cells: "transposeData g ! c ! r =
      (if c < length (g ! r) \<and> g ! r ! c \<noteq> Undefined then g ! r ! c else Str [])"
    if "g \<noteq> []" "c < maxCols g" "r < length g" for c r
    using that by (simp add: nth_transposeData at_def orEmpty_def)
  have len: "length (transposeData g ! c) = length g"
    if "g \<noteq> []" "c < maxCols g" for c
    using that by (simp add: nth_transposeData)
  from empty cells len length_transposeData show ?thesis
    by blast
qed

theorem transposeData_spec_witness:
  "transposeData [[Str ''A'', Str ''B''], [Num 1, Num 2], [Str ''3'']]
     = [[Str ''A'', Num 1, Str ''3''], [Str ''B'', Num 2, Str []]]
   \<and> length (transposeData [[Str ''A'', Str ''B''], [Num 1, Num 2], [Str ''3'']]) = 2
   \<and> length (transposeData [[Str ''A'', Str ''B''], [Num 1, Num 2], [Str ''3'']] ! 1) = 3
   \<and> transposeData [[Str ''A'', Str ''B''], [Num 1, Num 2], [Str ''3'']] ! 1 ! 2 = Str []"
proof -
  let ?g = "[[Str ''A'', Str ''B''], [Num 1, Num 2], [Str ''3'']]"
  have mc: "maxCols ?g = 2" by (simp add: maxCols_def)
  have val: "transposeData ?g = [[Str ''A'', Num 1, Str ''3''], [Str ''B'', Num 2, Str []]]"
    by (simp add: transposeData_def mc at_def orEmpty_def upt_rec)
  from transposeData_spec [of ?g] have
    "length (transposeData ?g) = maxCols ?g \<and>
      (\<forall>c < maxCols ?g. length (transposeData ?g ! c) = length ?g \<and>
         (\<forall>r < length ?g. transposeData ?g ! c ! r =
              (if c < length (?g ! r) \<and> ?g ! r ! c \<noteq> Undefined
               then ?g ! r ! c else Str [])))"
    by simp
  then show ?thesis unfolding mc by (simp add: val)
qed

section \<open>splitIntoColumnPairs\<close>

text \<open>
  C4. A grid whose widest row has \<open>N > 1\<close> cells is split into exactly \<open>N - 1\<close> pairs, in
  the order of the source columns \<open>1, 2, \<dots>\<close>: pair \<open>i\<close> has one row per row of the grid, and
  that row is the grid's cell of column 0 followed by its cell of column \<open>i + 1\<close>, each
  replaced by the empty string where it is missing.
\<close>

theorem splitIntoColumnPairs_pairs:
  assumes "maxCols g = N" and "1 < N"
  shows "length (splitIntoColumnPairs g) = N - 1 \<and>
         (\<forall>i < N - 1.
            length (splitIntoColumnPairs g ! i) = length g \<and>
            (\<forall>r < length g. splitIntoColumnPairs g ! i ! r =
               [if 0 < length (g ! r) \<and> g ! r ! 0 \<noteq> Undefined
                  then g ! r ! 0 else Str [],
                if i + 1 < length (g ! r) \<and> g ! r ! (i + 1) \<noteq> Undefined
                  then g ! r ! (i + 1) else Str []]))"
proof -
  from assms have ne: "g \<noteq> []" by (auto simp: maxCols_def)
  from assms ne have split:
    "splitIntoColumnPairs g =
       map (\<lambda>col. map (\<lambda>r. [orEmpty (at r 0), orEmpty (at r col)]) g) [1 ..< N]"
    by (simp add: splitIntoColumnPairs_def)
  show ?thesis
    by (simp add: split at_def orEmpty_def)
qed

theorem splitIntoColumnPairs_pairs_witness:
  "maxCols [[Str ''Name'', Str ''Alice'', Str ''Bob''], [Str ''Age'', Num 30]] = 3
   \<and> (1::nat) < 3
   \<and> splitIntoColumnPairs [[Str ''Name'', Str ''Alice'', Str ''Bob''], [Str ''Age'', Num 30]]
       = [[[Str ''Name'', Str ''Alice''], [Str ''Age'', Num 30]],
          [[Str ''Name'', Str ''Bob''], [Str ''Age'', Str []]]]
   \<and> length (splitIntoColumnPairs
        [[Str ''Name'', Str ''Alice'', Str ''Bob''], [Str ''Age'', Num 30]]) = 3 - 1"
proof -
  let ?g = "[[Str ''Name'', Str ''Alice'', Str ''Bob''], [Str ''Age'', Num 30]]"
  have mc: "maxCols ?g = 3" by (simp add: maxCols_def)
  have n: "(1::nat) < 3" by simp
  have val: "splitIntoColumnPairs ?g
       = [[[Str ''Name'', Str ''Alice''], [Str ''Age'', Num 30]],
          [[Str ''Name'', Str ''Bob''], [Str ''Age'', Str []]]]"
    by (simp add: splitIntoColumnPairs_def mc at_def orEmpty_def upt_rec)
  from splitIntoColumnPairs_pairs [OF mc n] have
    "length (splitIntoColumnPairs ?g) = 3 - 1" by blast
  with mc val show ?thesis by simp
qed

text \<open>
  C5. A grid of at least one row whose widest row has at most one cell is not split: the
  result is the one-element sequence holding the grid itself.
\<close>

theorem splitIntoColumnPairs_narrow:
  "g \<noteq> [] \<Longrightarrow> maxCols g \<le> 1 \<Longrightarrow> splitIntoColumnPairs g = [g]"
  by (simp add: splitIntoColumnPairs_def)

theorem splitIntoColumnPairs_narrow_witness:
  "[[Str ''a''], [], [Num 7]] \<noteq> [] \<and> maxCols [[Str ''a''], [], [Num 7]] \<le> 1
   \<and> splitIntoColumnPairs [[Str ''a''], [], [Num 7]] = [[[Str ''a''], [], [Num 7]]]"
proof -
  let ?g = "[[Str ''a''], [], [Num 7]]"
  have ne: "?g \<noteq> []" by simp
  have mc: "maxCols ?g \<le> 1" by (simp add: maxCols_def)
  from splitIntoColumnPairs_narrow [OF ne mc] ne mc show ?thesis by simp
qed

section \<open>Transposing twice\<close>

lemma transposeData_twice:
  assumes ne: "g \<noteq> []" and w: "\<forall>r \<in> set g. length r = w" and pos: "0 < w"
  shows "transposeData (transposeData g) = map (map orEmpty) g"
proof -
  let ?T = "transposeData g"
  have mc: "maxCols g = w" using ne w by (rule maxCols_uniform)
  have T: "?T = map (\<lambda>c. map (\<lambda>r. orEmpty (at r c)) g) [0 ..< w]"
    using ne by (simp add: transposeData_def mc)
  have Tne: "?T \<noteq> []" using pos by (simp add: T)
  have "\<forall>t \<in> set ?T. length t = length g" by (auto simp: T)
  with Tne have mcT: "maxCols ?T = length g" by (rule maxCols_uniform)
  have TT: "transposeData ?T = map (\<lambda>c. map (\<lambda>t. orEmpty (at t c)) ?T) [0 ..< length g]"
    using Tne by (simp add: transposeData_def [of ?T] mcT)
  show ?thesis
  proof (rule nth_equalityI)
    show "length (transposeData ?T) = length (map (map orEmpty) g)"
      by (simp add: TT)
  next
    fix i assume "i < length (transposeData ?T)"
    then have i: "i < length g" by (simp add: TT)
    then have len: "length (g ! i) = w" using w by simp
    have "transposeData ?T ! i = map (\<lambda>t. orEmpty (at t i)) ?T"
      using i by (simp add: TT)
    also have "\<dots> = map (\<lambda>c. orEmpty (orEmpty (at (g ! i) c))) [0 ..< w]"
      using i by (simp add: T at_def)
    also have "\<dots> = map orEmpty (g ! i)"
      by (rule nth_equalityI) (simp_all add: len at_def orEmpty_idem)
    finally show "transposeData ?T ! i = map (map orEmpty) g ! i"
      using i by simp
  qed
qed

lemma normalize_rows:
  "g \<noteq> [] \<Longrightarrow> \<forall>r \<in> set (normalize_grid g). length r = maxCols g"
  by (auto simp: normalize_grid_def)

lemma normalize_no_undefined: "map (map orEmpty) (normalize_grid g) = normalize_grid g"
  by (simp add: normalize_grid_def orEmpty_idem)

text \<open>
  C7, as the specification states it: for every rectangular grid \<open>g\<close>, transposing the
  normalized grid twice gives the normalized grid back. This fails for a rectangular grid
  of rows without cells: the transpose of \<open>[[]]\<close> has no rows, and the row is lost.
\<close>

theorem transposeData_involution_counterexample:
  "rectangular [[]] \<and> transposeData (transposeData (normalize_grid [[]])) \<noteq> normalize_grid [[]]"
  by (simp add: rectangular_def normalize_grid_def transposeData_def maxCols_def)

text \<open>
  C7, amended: for every rectangular grid \<open>g\<close> that has no rows or has at least one column,
  \<open>transposeData (transposeData (normalize_grid g)) = normalize_grid g\<close>.
\<close>

theorem transposeData_involution:
  assumes "rectangular g" and "g = [] \<or> 0 < maxCols g"
  shows "transposeData (transposeData (normalize_grid g)) = normalize_grid g"
proof (cases "g = []")
  case True
  then show ?thesis by (simp add: normalize_grid_def transposeData_def)
next
  case False
  with assms(2) have pos: "0 < maxCols g" by simp
  from False have ne: "normalize_grid g \<noteq> []" by (simp add: normalize_grid_def)
  from transposeData_twice [OF ne normalize_rows [OF False] pos]
  show ?thesis by (simp add: normalize_no_undefined)
qed

theorem transposeData_involution_witness:
  "rectangular [[Str ''A'', Undefined], [Num 1, Num 2]]
   \<and> ([[Str ''A'', Undefined], [Num 1, Num 2]] = []
        \<or> 0 < maxCols [[Str ''A'', Undefined], [Num 1, Num 2]])
   \<and> transposeData (transposeData (normalize_grid [[Str ''A'', Undefined], [Num 1, Num 2]]))
       = [[Str ''A'', Str []], [Num 1, Num 2]]"
proof -
  let ?g = "[[Str ''A'', Undefined], [Num 1, Num 2]]"
  have r: "rectangular ?g" by (simp add: rectangular_def)
  have mc: "maxCols ?g = 2" by (simp add: maxCols_def)
  have p: "?g = [] \<or> 0 < maxCols ?g" by (simp add: mc)
  have n: "normalize_grid ?g = [[Str ''A'', Str []], [Num 1, Num 2]]"
    by (simp add: normalize_grid_def mc at_def orEmpty_def upt_rec)
  from transposeData_involution [OF r p] r p n show ?thesis by simp
qed

section \<open>Group names\<close>

lemma string_of_nat_not_empty: "string_of_nat n \<noteq> []"
  by (subst string_of_nat.simps) simp

lemma string_of_int_not_empty: "string_of_int i \<noteq> []"
  by (simp add: string_of_int_def string_of_nat_not_empty)

lemma truthy_toString: "truthy v \<Longrightarrow> toString v \<noteq> []"
  by (cases v) (simp_all add: string_of_int_not_empty)

lemma familyName_truthy: "truthy (familyName pair i)"
  by (simp add: familyName_def Let_def)

text \<open>
  C2, as the specification states it: the resolved group name is the second cell of the
  first row of the pair whenever that cell is not empty. A cell that holds the number 0 is
  not empty, and the name resolved for it is the placeholder "column2", not "0".
\<close>

theorem familyName_counterexample:
  "splitIntoColumnPairs [[Str ''Label'', Num 0]] = [[[Str ''Label'', Num 0]]]
   \<and> splitIntoColumnPairs [[Str ''Label'', Num 0]] ! 0 ! 0 ! 1 = Num 0
   \<and> toString (splitIntoColumnPairs [[Str ''Label'', Num 0]] ! 0 ! 0 ! 1) = ''0''
   \<and> toString (familyName (splitIntoColumnPairs [[Str ''Label'', Num 0]] ! 0) 0) = ''column2''"
  by code_simp

text \<open>
  C2, amended: for the pair that \<open>splitIntoColumnPairs\<close> makes from source column
  \<open>k = i + 1\<close>, the resolved group name is the second cell of the first row of the pair,
  as a string, whenever that cell counts as true (a string that is not empty, a number
  other than 0, the boolean true), and the placeholder "column" followed by \<open>k + 1\<close>
  otherwise (the empty string, 0, false, null); it is never the empty string.
\<close>

theorem familyName_resolved:
  assumes "maxCols g = N" and "1 < N" and "i < N - 1"
  shows "toString (familyName (splitIntoColumnPairs g ! i) i)
           = (if truthy (splitIntoColumnPairs g ! i ! 0 ! 1)
              then toString (splitIntoColumnPairs g ! i ! 0 ! 1)
              else ''column'' @ string_of_nat ((i + 1) + 1))
         \<and> toString (familyName (splitIntoColumnPairs g ! i) i) \<noteq> []"
proof -
  from assms have ne: "g \<noteq> []" by (auto simp: maxCols_def)
  then obtain r rs where g: "g = r # rs" by (cases g) auto
  from assms ne have split:
    "splitIntoColumnPairs g =
       map (\<lambda>col. map (\<lambda>r. [orEmpty (at r 0), orEmpty (at r col)]) g) [1 ..< N]"
    by (simp add: splitIntoColumnPairs_def)
  have pair: "splitIntoColumnPairs g ! i
      = [orEmpty (at r 0), orEmpty (at r (i + 1))] # map (\<lambda>r. [orEmpty (at r 0), orEmpty (at r (i + 1))]) rs"
    using assms(3) unfolding split by (simp add: g)
  have eq: "toString (familyName (splitIntoColumnPairs g ! i) i)
           = (if truthy (splitIntoColumnPairs g ! i ! 0 ! 1)
              then toString (splitIntoColumnPairs g ! i ! 0 ! 1)
              else ''column'' @ string_of_nat ((i + 1) + 1))"
    by (simp add: pair familyName_def at_def)
  have "toString (familyName (splitIntoColumnPairs g ! i) i) \<noteq> []"
    by (rule truthy_toString) (rule familyName_truthy)
  with eq show ?thesis by simp
qed

theorem familyName_resolved_witness:
  "maxCols [[Str ''Name'', Str ''Alice'', Str []], [Str ''Age'', Num 30, Num 25]] = 3
   \<and> (1::nat) < 3 \<and> (1::nat) < 3 - 1
   \<and> toString (familyName (splitIntoColumnPairs
        [[Str ''Name'', Str ''Alice'', Str []], [Str ''Age'', Num 30, Num 25]] ! 1) 1) = ''column3''"
proof -
  let ?g = "[[Str ''Name'', Str ''Alice'', Str []], [Str ''Age'', Num 30, Num 25]]"
  have mc: "maxCols ?g = 3" by (simp add: maxCols_def)
  have n: "(1::nat) < 3" and i: "(1::nat) < 3 - 1" by simp_all
  have val: "toString (familyName (splitIntoColumnPairs ?g ! 1) 1) = ''column3''"
    by code_simp
  from familyName_resolved [OF mc n i] mc val show ?thesis
    by simp
qed

section \<open>The delay between two downloads\<close>

lemma delayOnlyBetween_loop:
  "delayOnlyBetween
     (concat (map (\<lambda>i. SaveAs (b i) (f i) # (if i < m - 1 then [Delay d] else [])) [k ..< m])
      @ [Alert msg])"
proof (induction "m - k" arbitrary: k)
  case 0
  then show ?case by simp
next
  case (Suc n)
  then have km: "k < m" by simp
  show ?case
  proof (cases "k < m - 1")
    case True
    then have "Suc k < m" by simp
    then have next_step: "[Suc k ..< m] = Suc k # [Suc (Suc k) ..< m]"
      by (rule upt_conv_Cons)
    from Suc.hyps have "n = m - Suc k" by simp
    from Suc.hyps(1) [OF this] show ?thesis
      using km True by (simp add: upt_conv_Cons [OF km] next_step)
  next
    case False
    with km have "Suc k = m" by simp
    then show ?thesis using km by (simp add: upt_conv_Cons [OF km])
  qed
qed

text \<open>
  The export of the current file keeps the rule, with and without splitting, and so does
  the export of all files when the columns are not split.
\<close>

lemma downloadWordFile_delays: "delayOnlyBetween (downloadWordFile st)"
proof -
  have "delayOnlyBetween
     (concat (map (\<lambda>i. SaveAs (snd (splitArtifact c (ps ! i) i)) (fst (splitArtifact c (ps ! i) i))
                          # (if i < length ps - 1 then [Delay 300] else []))
                [0 ..< length ps])
      @ [Alert msg])" for c ps msg
    by (rule delayOnlyBetween_loop)
  then show ?thesis
    by (simp add: downloadWordFile_def Let_def case_prod_beta)
qed

lemma downloadAllWordFiles_shape:
  assumes "files st \<noteq> []"
  shows "\<exists>msg. downloadAllWordFiles st
           = concat (map (downloadAllStep st) [0 ..< length (files st)]) @ [Alert msg]"
  using assms by (simp add: downloadAllWordFiles_def Let_def)

lemma downloadAllWordFiles_delays:
  assumes "\<not> splitColumns st"
  shows "delayOnlyBetween (downloadAllWordFiles st)"
proof (cases "files st = []")
  case True
  then show ?thesis by (simp add: downloadAllWordFiles_def)
next
  case False
  let ?b = "\<lambda>i. createWordDocument (files st ! i) (transpose_flag st) (Str [])"
  let ?f = "\<lambda>i. (if name (files st ! i) \<noteq> [] then name (files st ! i)
                  else ''converted_'' @ string_of_nat (i + 1)) @ ''.docx''"
  have step: "downloadAllStep st =
      (\<lambda>i. SaveAs (?b i) (?f i) # (if i < length (files st) - 1 then [Delay 300] else []))"
    using assms by (simp add: downloadAllStep_def Let_def fun_eq_iff)
  from downloadAllWordFiles_shape [OF False] obtain msg where
    "downloadAllWordFiles st
       = concat (map (downloadAllStep st) [0 ..< length (files st)]) @ [Alert msg]" ..
  then show ?thesis
    unfolding step by (simp only: delayOnlyBetween_loop)
qed

lemma splitIntoColumnPairs_not_empty: "splitIntoColumnPairs g \<noteq> []"
  by (simp add: splitIntoColumnPairs_def)

lemma delay_before_alert: "\<not> delayOnlyBetween (es @ [Delay d, Alert msg])"
  by (induction es rule: delayOnlyBetween.induct)
     (auto split: list.splits event.splits simp: append_eq_Cons_conv)

lemma concat_pairs_last:
  assumes "0 < m"
  shows "\<exists>es. concat (map (\<lambda>j. [F j, D]) [0 ..< m]) = es @ [D]"
proof -
  from assms obtain k where m: "m = Suc k" by (cases m) auto
  have "concat (map (\<lambda>j. [F j, D]) [0 ..< m])
      = (concat (map (\<lambda>j. [F j, D]) [0 ..< k]) @ [F k]) @ [D]"
    by (simp add: m)
  then show ?thesis ..
qed

text \<open>
  The export of all files with split columns ends every run with a delay after the last
  download, whatever the tables are.
\<close>

lemma downloadAllWordFiles_split_delay_last:
  assumes "files st \<noteq> []" and "splitColumns st"
  shows "\<exists>es msg. downloadAllWordFiles st = es @ [Delay 300, Alert msg]"
proof -
  let ?n = "length (files st)"
  from assms(1) obtain k where k: "?n = Suc k" by (cases "files st") auto
  let ?ps = "splitIntoColumnPairs (exported st (files st ! k))"
  have "0 < length ?ps" by (simp add: splitIntoColumnPairs_not_empty)
  then have pos: "0 < length ?ps" .
  let ?F = "\<lambda>j. SaveAs (snd (splitArtifact (files st ! k) (?ps ! j) j))
                      (fst (splitArtifact (files st ! k) (?ps ! j) j))"
  have stepk: "downloadAllStep st k = concat (map (\<lambda>j. [?F j, Delay 300]) [0 ..< length ?ps])"
    using assms(2) by (simp add: downloadAllStep_def Let_def case_prod_beta)
  from concat_pairs_last [OF pos, of ?F "Delay 300"] obtain es where
    "downloadAllStep st k = es @ [Delay 300]"
    unfolding stepk by blast
  then have evs: "concat (map (downloadAllStep st) [0 ..< ?n])
      = (concat (map (downloadAllStep st) [0 ..< k]) @ es) @ [Delay 300]"
    by (simp add: k)
  from downloadAllWordFiles_shape [OF assms(1)] obtain msg where
    "downloadAllWordFiles st = concat (map (downloadAllStep st) [0 ..< ?n]) @ [Alert msg]" ..
  then have "downloadAllWordFiles st
      = (concat (map (downloadAllStep st) [0 ..< k]) @ es) @ [Delay 300, Alert msg]"
    by (simp add: evs)
  then show ?thesis by blast
qed

lemma downloadAllWordFiles_split_breaks_rule:
  assumes "files st \<noteq> []" and "splitColumns st"
  shows "\<not> delayOnlyBetween (downloadAllWordFiles st)"
proof -
  from downloadAllWordFiles_split_delay_last [OF assms] obtain es msg where
    "downloadAllWordFiles st = es @ [Delay 300, Alert msg]" by blast
  then show ?thesis by (simp only: delay_before_alert not_False_eq_True)
qed

text \<open>
  C3. The delay is only between two downloads and never after the last one of an export.
  The export of all files with split columns waits after every download, the last one
  included: for the two tables "f" with the rows \<open>[["Name", "Alice"]]\<close> and "g" with the
  rows \<open>[["Name", "Bob"]]\<close> it saves "f_Alice.docx", waits 300 ms, saves "g_Bob.docx",
  waits 300 ms again, and only then reports. The same export of the same tables without
  splitting waits once, between the two downloads.
\<close>

theorem downloadAllWordFiles_delay_after_last:
  "downloadAllWordFiles
     \<lparr>files = [\<lparr>name = ''f'', data = [[Str ''Name'', Str ''Alice'']], originalName = ''f.xlsx''\<rparr>,
               \<lparr>name = ''g'', data = [[Str ''Name'', Str ''Bob'']], originalName = ''g.xlsx''\<rparr>],
      selectedFileIndex = 0, transpose_flag = False, splitColumns = True\<rparr>
   = [SaveAs \<lparr>title_text = ''Packing Sheet Alice'', title_bold = True, title_size = 32,
              spacing_after = 200, table_rows = [[''Name'', ''Alice'']]\<rparr> ''f_Alice.docx'',
      Delay 300,
      SaveAs \<lparr>title_text = ''Packing Sheet Bob'', title_bold = True, title_size = 32,
              spacing_after = 200, table_rows = [[''Name'', ''Bob'']]\<rparr> ''g_Bob.docx'',
      Delay 300,
      Alert ''Successfully downloaded 2 Word documents!'']
   \<and> \<not> delayOnlyBetween (downloadAllWordFiles
     \<lparr>files = [\<lparr>name = ''f'', data = [[Str ''Name'', Str ''Alice'']], originalName = ''f.xlsx''\<rparr>,
               \<lparr>name = ''g'', data = [[Str ''Name'', Str ''Bob'']], originalName = ''g.xlsx''\<rparr>],
      selectedFileIndex = 0, transpose_flag = False, splitColumns = True\<rparr>)
   \<and> downloadAllWordFiles
     \<lparr>files = [\<lparr>name = ''f'', data = [[Str ''Name'', Str ''Alice'']], originalName = ''f.xlsx''\<rparr>,
               \<lparr>name = ''g'', data = [[Str ''Name'', Str ''Bob'']], originalName = ''g.xlsx''\<rparr>],
      selectedFileIndex = 0, transpose_flag = False, splitColumns = False\<rparr>
   = [SaveAs \<lparr>title_text = ''Packing Sheet'', title_bold = True, title_size = 32,
              spacing_after = 200, table_rows = [[''Name'', ''Alice'']]\<rparr> ''f.docx'',
      Delay 300,
      SaveAs \<lparr>title_text = ''Packing Sheet'', title_bold = True, title_size = 32,
              spacing_after = 200, table_rows = [[''Name'', ''Bob'']]\<rparr> ''g.docx'',
      Alert ''Successfully downloaded 2 Word documents!'']"
  by code_simp

section \<open>The archive export\<close>

lemma zip_file_fresh: "p \<notin> set (map fst z) \<Longrightarrow> zip_file z p b = z @ [(p, b)]"
  by (induction z p b rule: zip_file.induct) auto

lemma archive_fresh:
  assumes "distinct (map fst xs)"
    and "\<forall>n \<in> set (map fst xs). ''converted_files/'' @ n \<notin> set (map fst z)"
  shows "foldl folder_file z xs = z @ map (\<lambda>nb. (''converted_files/'' @ fst nb, snd nb)) xs"
  using assms
proof (induction xs arbitrary: z)
  case Nil
  then show ?case by simp
next
  case (Cons x xs)
  from Cons.prems(2) have fresh: "''converted_files/'' @ fst x \<notin> set (map fst z)"
    by simp
  then have step: "folder_file z x = z @ [(''converted_files/'' @ fst x, snd x)]"
    by (simp add: folder_file_def zip_file_fresh)
  from Cons.prems have d: "distinct (map fst xs)" and nx: "fst x \<notin> set (map fst xs)"
    by simp_all
  have "\<forall>n \<in> set (map fst xs). ''converted_files/'' @ n \<notin> set (map fst (folder_file z x))"
  proof
    fix n assume n: "n \<in> set (map fst xs)"
    with nx have "n \<noteq> fst x" by blast
    moreover from Cons.prems(2) n have "''converted_files/'' @ n \<notin> set (map fst z)"
      by auto
    ultimately show "''converted_files/'' @ n \<notin> set (map fst (folder_file z x))"
      unfolding step by simp
  qed
  from Cons.IH [OF d this] show ?case
    by (simp add: step)
qed

lemma length_zipStep:
  "length (zipStep st i)
     = (if splitColumns st then length (splitIntoColumnPairs (exported st (files st ! i))) else 1)"
  by (simp add: zipStep_def Let_def)

text \<open>
  The number of documents that the export gives to the archive, which is the number that
  its alert reports: one per table, or the split counts added up.
\<close>

lemma length_zipAdded:
  "length (zipAdded st)
     = (if splitColumns st
        then sum_list (map (\<lambda>f. length (splitIntoColumnPairs (exported st f))) (files st))
        else length (files st))"
proof -
  have "length (zipAdded st) = sum_list (map (\<lambda>i. length (zipStep st i)) [0 ..< length (files st)])"
    by (simp add: zipAdded_def length_concat comp_def)
  also have "\<dots> = (if splitColumns st
        then sum_list (map (\<lambda>i. length (splitIntoColumnPairs (exported st (files st ! i))))
                        [0 ..< length (files st)])
        else length (files st))"
    by (simp add: length_zipStep sum_list_triv)
  also have "map (\<lambda>i. length (splitIntoColumnPairs (exported st (files st ! i))))
                [0 ..< length (files st)]
             = map (\<lambda>f. length (splitIntoColumnPairs (exported st f))) (files st)"
    by (rule nth_equalityI) simp_all
  finally show ?thesis .
qed

text \<open>
  As long as no file name is generated twice, the archive holds every document that was
  given to it, in order.
\<close>

lemma zipArchive_all_documents:
  assumes "distinct (map fst (zipAdded st))"
  shows "zipArchive st = map (\<lambda>nb. (''converted_files/'' @ fst nb, snd nb)) (zipAdded st)"
proof -
  have "zipArchive st = [] @ map (\<lambda>nb. (''converted_files/'' @ fst nb, snd nb)) (zipAdded st)"
    unfolding zipArchive_def by (rule archive_fresh [OF assms]) simp
  then show ?thesis by simp
qed

text \<open>
  C8. The archive export is to hold exactly one entry per source table (per split document
  when the columns are split), with file names that are unique. For the working set of
  two tables that are both named "a" (the files "a.xlsx" and "a.xls") the export gives
  two documents to the archive and reports two, both under the path
  "converted_files/a.docx": the second replaces the first, and the saved archive holds one
  document, that of the second table. The export of all files as separate downloads
  hands over both documents of the same working set.
\<close>

theorem downloadZipFile_name_collision:
  "map fst (zipAdded \<lparr>files = [\<lparr>name = ''a'', data = [[Str ''x'']], originalName = ''a.xlsx''\<rparr>,
                          \<lparr>name = ''a'', data = [[Str ''y'']], originalName = ''a.xls''\<rparr>],
                 selectedFileIndex = 0, transpose_flag = False, splitColumns = False\<rparr>)
       = [''a.docx'', ''a.docx'']
   \<and> downloadZipFile \<lparr>files = [\<lparr>name = ''a'', data = [[Str ''x'']], originalName = ''a.xlsx''\<rparr>,
                          \<lparr>name = ''a'', data = [[Str ''y'']], originalName = ''a.xls''\<rparr>],
                 selectedFileIndex = 0, transpose_flag = False, splitColumns = False\<rparr>
       = [SaveAsZip [(''converted_files/a.docx'',
                      \<lparr>title_text = ''Packing Sheet'', title_bold = True, title_size = 32,
                       spacing_after = 200, table_rows = [[''y'']]\<rparr>)]
            ''converted_files.zip'',
          Alert ''Successfully created zip file with 2 Word documents!'']
   \<and> length (documents (downloadZipFile
          \<lparr>files = [\<lparr>name = ''a'', data = [[Str ''x'']], originalName = ''a.xlsx''\<rparr>,
                    \<lparr>name = ''a'', data = [[Str ''y'']], originalName = ''a.xls''\<rparr>],
           selectedFileIndex = 0, transpose_flag = False, splitColumns = False\<rparr>)) = 1
   \<and> documents (downloadAllWordFiles
          \<lparr>files = [\<lparr>name = ''a'', data = [[Str ''x'']], originalName = ''a.xlsx''\<rparr>,
                    \<lparr>name = ''a'', data = [[Str ''y'']], originalName = ''a.xls''\<rparr>],
           selectedFileIndex = 0, transpose_flag = False, splitColumns = False\<rparr>)
       = [\<lparr>title_text = ''Packing Sheet'', title_bold = True, title_size = 32,
           spacing_after = 200, table_rows = [[''x'']]\<rparr>,
          \<lparr>title_text = ''Packing Sheet'', title_bold = True, title_size = 32,
           spacing_after = 200, table_rows = [[''y'']]\<rparr>]"
  by code_simp

section \<open>Upload\<close>

lemma processFiles_append:
  "processFiles decode (xs @ ys)
     = (fst (processFiles decode xs) @ fst (processFiles decode ys),
        snd (processFiles decode xs) @ snd (processFiles decode ys))"
  by (induction xs) (auto simp: Let_def split: prod.splits option.splits)

lemma processFiles_all_decoded:
  assumes "\<forall>f \<in> set xs. isExcelName (file_name f) \<and> decode (file_bytes f) \<noteq> None"
  shows "processFiles decode xs
     = (map (\<lambda>f. \<lparr>name = stripExtension (file_name f), data = the (decode (file_bytes f)),
                   originalName = file_name f\<rparr>) xs,
        map (\<lambda>f. Decoding (file_name f)) xs)"
  using assms by (induction xs) (auto simp: Let_def)

lemma processFiles_failed:
  assumes "isExcelName (file_name f)" and "decode (file_bytes f) = None"
  shows "processFiles decode [f]
     = ([], [Decoding (file_name f), ConsoleError (''Error reading file '' @ file_name f @ '':'')])"
  using assms by simp

lemma processFiles_skipped:
  assumes "\<not> isExcelName (file_name f)"
  shows "processFiles decode [f] = ([], [])"
  using assms by simp

lemma processFiles_tables_named:
  "t \<in> set (fst (processFiles decode xs)) \<Longrightarrow> isExcelName (originalName t)"
  by (induction xs arbitrary: t) (auto simp: Let_def split: prod.splits option.splits if_splits)

lemma processFiles_decoding_named:
  "Decoding n \<in> set (snd (processFiles decode xs)) \<Longrightarrow> isExcelName n"
  by (induction xs) (auto simp: Let_def split: prod.splits option.splits if_splits)

lemma processFiles_error_named:
  "ConsoleError (''Error reading file '' @ n @ '':'') \<in> set (snd (processFiles decode xs))
     \<Longrightarrow> isExcelName n"
  by (induction xs) (auto simp: Let_def split: prod.splits option.splits if_splits)

text \<open>
  C9. When every one of the \<open>N\<close> uploaded files is decoded and the decoding of exactly one
  of them (the file at position \<open>k\<close>) fails, the upload returns, the working set afterwards
  is the working set before followed by the tables of the \<open>N - 1\<close> other files in upload
  order, the failing file is not among them, and its error went to the console and no
  further. The upload is a total function: the only step that can throw is the decoding,
  and its failure is the branch \<open>None\<close> inside the loop.
\<close>

theorem handleFilesUpload_one_failure:
  assumes "\<forall>f \<in> set fileList. isExcelName (file_name f)"
    and "k < length fileList"
    and "decode (file_bytes (fileList ! k)) = None"
    and "\<forall>i < length fileList. i \<noteq> k \<longrightarrow> decode (file_bytes (fileList ! i)) \<noteq> None"
  shows "files (fst (handleFilesUpload decode fileList st))
           = files st @
             map (\<lambda>f. \<lparr>name = stripExtension (file_name f), data = the (decode (file_bytes f)),
                        originalName = file_name f\<rparr>)
               (take k fileList @ drop (Suc k) fileList)
         \<and> length (files (fst (handleFilesUpload decode fileList st)))
             = length (files st) + (length fileList - 1)
         \<and> snd (handleFilesUpload decode fileList st)
             = map (\<lambda>f. Decoding (file_name f)) (take k fileList)
               @ [Decoding (file_name (fileList ! k)),
                  ConsoleError (''Error reading file '' @ file_name (fileList ! k) @ '':'')]
               @ map (\<lambda>f. Decoding (file_name f)) (drop (Suc k) fileList)"
proof -
  let ?mk = "\<lambda>f. \<lparr>name = stripExtension (file_name f), data = the (decode (file_bytes f)),
                   originalName = file_name f\<rparr>"
  let ?pre = "take k fileList" and ?post = "drop (Suc k) fileList" and ?f = "fileList ! k"
  from assms(2) have parts: "fileList = ?pre @ [?f] @ ?post"
    by (simp add: id_take_nth_drop)
  have pre_ok: "\<forall>f \<in> set ?pre. isExcelName (file_name f) \<and> decode (file_bytes f) \<noteq> None"
  proof
    fix f assume f: "f \<in> set ?pre"
    then obtain i where "i < length ?pre" and "?pre ! i = f"
      by (auto simp: in_set_conv_nth)
    then have "i < length fileList" and "i \<noteq> k" and "fileList ! i = f" by simp_all
    with assms(4) have "decode (file_bytes f) \<noteq> None" by blast
    moreover from f assms(1) have "isExcelName (file_name f)"
      by (blast dest: in_set_takeD)
    ultimately show "isExcelName (file_name f) \<and> decode (file_bytes f) \<noteq> None" by simp
  qed
  have post_ok: "\<forall>f \<in> set ?post. isExcelName (file_name f) \<and> decode (file_bytes f) \<noteq> None"
  proof
    fix f assume f: "f \<in> set ?post"
    then obtain i where i: "i < length ?post" and "?post ! i = f"
      by (auto simp: in_set_conv_nth)
    then have "Suc k + i < length fileList" and "Suc k + i \<noteq> k" and "fileList ! (Suc k + i) = f"
      by simp_all
    with assms(4) have "decode (file_bytes f) \<noteq> None" by blast
    moreover from f assms(1) have "isExcelName (file_name f)"
      by (blast dest: in_set_dropD)
    ultimately show "isExcelName (file_name f) \<and> decode (file_bytes f) \<noteq> None" by simp
  qed
  from assms(1,2) have named: "isExcelName (file_name ?f)" by simp
  have failed: "processFiles decode [?f]
     = ([], [Decoding (file_name ?f), ConsoleError (''Error reading file '' @ file_name ?f @ '':'')])"
    using named assms(3) by (rule processFiles_failed [of ?f decode])
  have "processFiles decode fileList = processFiles decode (?pre @ [?f] @ ?post)"
    using parts by simp
  also have "\<dots> = (map ?mk ?pre @ map ?mk ?post,
       map (\<lambda>f. Decoding (file_name f)) ?pre
       @ [Decoding (file_name ?f), ConsoleError (''Error reading file '' @ file_name ?f @ '':'')]
       @ map (\<lambda>f. Decoding (file_name f)) ?post)"
    by (simp only: processFiles_append processFiles_all_decoded [OF pre_ok]
        processFiles_all_decoded [OF post_ok] failed fst_conv snd_conv append_Nil)
  finally have loop: "processFiles decode fileList = (map ?mk (?pre @ ?post),
       map (\<lambda>f. Decoding (file_name f)) ?pre
       @ [Decoding (file_name ?f), ConsoleError (''Error reading file '' @ file_name ?f @ '':'')]
       @ map (\<lambda>f. Decoding (file_name f)) ?post)"
    by simp
  from assms(2) have ne: "fileList \<noteq> []" by auto
  have len: "length (?pre @ ?post) = length fileList - 1"
    using assms(2) by simp
  have ws: "files (fst (handleFilesUpload decode fileList st)) = files st @ map ?mk (?pre @ ?post)"
    using ne by (simp add: handleFilesUpload_def loop)
  have evs: "snd (handleFilesUpload decode fileList st)
      = map (\<lambda>f. Decoding (file_name f)) ?pre
       @ [Decoding (file_name ?f), ConsoleError (''Error reading file '' @ file_name ?f @ '':'')]
       @ map (\<lambda>f. Decoding (file_name f)) ?post"
    using ne by (simp add: handleFilesUpload_def loop)
  have "length (files (fst (handleFilesUpload decode fileList st)))
      = length (files st) + (length fileList - 1)"
    unfolding ws using len by simp
  with ws evs show ?thesis by simp
qed

theorem handleFilesUpload_one_failure_witness:
  "files (fst (handleFilesUpload (\<lambda>b. if b = [] then None else Some [[Num (int (hd b))]])
      [\<lparr>file_name = ''a.xlsx'', file_bytes = [1]\<rparr>,
       \<lparr>file_name = ''b.xls'', file_bytes = []\<rparr>,
       \<lparr>file_name = ''c.XLS'', file_bytes = [3]\<rparr>]
      \<lparr>files = [], selectedFileIndex = 0, transpose_flag = True, splitColumns = False\<rparr>))
   = [\<lparr>name = ''a'', data = [[Num 1]], originalName = ''a.xlsx''\<rparr>,
      \<lparr>name = ''c'', data = [[Num 3]], originalName = ''c.XLS''\<rparr>]"
proof -
  let ?decode = "\<lambda>b::bytes. if b = [] then None else Some [[Num (int (hd b))]]"
  let ?fl = "[\<lparr>file_name = ''a.xlsx'', file_bytes = [1]\<rparr>,
       \<lparr>file_name = ''b.xls'', file_bytes = []\<rparr>,
       \<lparr>file_name = ''c.XLS'', file_bytes = [3]\<rparr>]"
  let ?st = "\<lparr>files = [], selectedFileIndex = 0, transpose_flag = True, splitColumns = False\<rparr>"
  have a: "\<forall>f \<in> set ?fl. isExcelName (file_name f)"
    by (simp add: isExcelName_def endsWith_def foldCase_def)
  have k: "(1::nat) < length ?fl" by simp
  have fail: "?decode (file_bytes (?fl ! 1)) = None" by simp
  have ok: "\<forall>i < length ?fl. i \<noteq> 1 \<longrightarrow> ?decode (file_bytes (?fl ! i)) \<noteq> None"
    by (simp add: less_Suc_eq numeral_3_eq_3)
  have s: "stripExtension ''a.xlsx'' = ''a''" "stripExtension ''c.XLS'' = ''c''"
    by (simp_all add: stripExtension_def)
  from handleFilesUpload_one_failure [of ?fl 1 ?decode ?st, OF a k fail ok]
  show ?thesis by (simp add: s)
qed

text \<open>
  C10. A file whose name does not end in ".xlsx" or ".xls" (in any case of the letters) is
  skipped by the upload: the upload of a list with the file gives the same state and the
  same events as the upload of the list without it, the decoding of the file is never
  started, no error is written for it, and no table of its name enters the working set.
\<close>

theorem handleFilesUpload_skips:
  assumes "\<not> isExcelName (file_name f)"
  shows "handleFilesUpload decode (pre @ f # post) st = handleFilesUpload decode (pre @ post) st
       \<and> Decoding (file_name f) \<notin> set (snd (handleFilesUpload decode (pre @ f # post) st))
       \<and> ConsoleError (''Error reading file '' @ file_name f @ '':'')
           \<notin> set (snd (handleFilesUpload decode (pre @ f # post) st))
       \<and> (\<forall>t \<in> set (files (fst (handleFilesUpload decode (pre @ f # post) st))).
            originalName t = file_name f \<longrightarrow> t \<in> set (files st))"
proof -
  have loop: "processFiles decode (pre @ f # post) = processFiles decode (pre @ post)"
    using processFiles_append [of decode pre "[f] @ post"]
      processFiles_append [of decode "[f]" post] processFiles_append [of decode pre post]
      processFiles_skipped [OF assms, of decode]
    by simp
  have same: "handleFilesUpload decode (pre @ f # post) st = handleFilesUpload decode (pre @ post) st"
  proof (cases "pre @ post = []")
    case True
    then show ?thesis using assms by (simp add: handleFilesUpload_def)
  next
    case False
    then show ?thesis by (simp add: handleFilesUpload_def loop)
  qed
  have evs: "snd (handleFilesUpload decode (pre @ f # post) st)
      = snd (processFiles decode (pre @ f # post))"
    by (simp add: handleFilesUpload_def case_prod_beta)
  have no_decoding: "Decoding (file_name f) \<notin> set (snd (handleFilesUpload decode (pre @ f # post) st))"
    unfolding evs using assms processFiles_decoding_named by blast
  have no_error: "ConsoleError (''Error reading file '' @ file_name f @ '':'')
           \<notin> set (snd (handleFilesUpload decode (pre @ f # post) st))"
    unfolding evs using assms processFiles_error_named by blast
  have tables: "t \<in> set (files st)"
    if "t \<in> set (files (fst (handleFilesUpload decode (pre @ f # post) st)))"
      and "originalName t = file_name f" for t
  proof -
    from that(1) have "t \<in> set (files st) \<or> t \<in> set (fst (processFiles decode (pre @ f # post)))"
      by (auto simp: handleFilesUpload_def case_prod_beta split: if_splits)
    moreover have "t \<notin> set (fst (processFiles decode (pre @ f # post)))"
      using processFiles_tables_named [of t decode] that(2) assms by auto
    ultimately show ?thesis by simp
  qed
  from same no_decoding no_error tables show ?thesis by blast
qed

theorem handleFilesUpload_skips_witness:
  "\<not> isExcelName ''notes.xlsx.txt''
   \<and> handleFilesUpload (\<lambda>b. if b = [] then None else Some [[Num (int (hd b))]])
      [\<lparr>file_name = ''a.xlsx'', file_bytes = [1]\<rparr>,
       \<lparr>file_name = ''notes.xlsx.txt'', file_bytes = [2]\<rparr>]
      \<lparr>files = [], selectedFileIndex = 0, transpose_flag = True, splitColumns = False\<rparr>
   = (\<lparr>files = [\<lparr>name = ''a'', data = [[Num 1]], originalName = ''a.xlsx''\<rparr>],
       selectedFileIndex = 0, transpose_flag = True, splitColumns = False\<rparr>,
      [Decoding ''a.xlsx''])"
proof -
  let ?decode = "\<lambda>b::bytes. if b = [] then None else Some [[Num (int (hd b))]]"
  let ?f = "\<lparr>file_name = ''notes.xlsx.txt'', file_bytes = [2]\<rparr>"
  let ?st = "\<lparr>files = [], selectedFileIndex = 0, transpose_flag = True, splitColumns = False\<rparr>"
  have n: "\<not> isExcelName (file_name ?f)"
    by (simp add: isExcelName_def endsWith_def foldCase_def)
  have a: "isExcelName ''a.xlsx''"
    by (simp add: isExcelName_def endsWith_def foldCase_def)
  have s: "stripExtension ''a.xlsx'' = ''a''"
    by (simp add: stripExtension_def)
  have without: "handleFilesUpload ?decode [\<lparr>file_name = ''a.xlsx'', file_bytes = [1]\<rparr>] ?st
      = (\<lparr>files = [\<lparr>name = ''a'', data = [[Num 1]], originalName = ''a.xlsx''\<rparr>],
          selectedFileIndex = 0, transpose_flag = True, splitColumns = False\<rparr>,
         [Decoding ''a.xlsx''])"
    by (simp add: handleFilesUpload_def a s)
  from handleFilesUpload_skips [OF n, of ?decode "[\<lparr>file_name = ''a.xlsx'', file_bytes = [1]\<rparr>]" "[]" ?st]
  have "handleFilesUpload ?decode [\<lparr>file_name = ''a.xlsx'', file_bytes = [1]\<rparr>, ?f] ?st
      = handleFilesUpload ?decode [\<lparr>file_name = ''a.xlsx'', file_bytes = [1]\<rparr>] ?st"
    by simp
  with without n show ?thesis by simp
qed

section \<open>The title of every exported document\<close>

lemma documents_append: "documents (xs @ ys) = documents xs @ documents ys"
  by (induction xs rule: documents.induct) simp_all

lemma documents_concat: "set (documents (concat xss)) = (\<Union>xs \<in> set xss. set (documents xs))"
  by (induction xss) (simp_all add: documents_append)

lemma splitArtifact_titled: "splitColumns st \<Longrightarrow> titled st (snd (splitArtifact file pair i))"
  by (auto simp: titled_def splitArtifact_def Let_def createWordDocument_def familyName_truthy
      truthy_toString)

lemma whole_titled:
  "\<not> splitColumns st \<Longrightarrow> titled st (createWordDocument file tr (Str []))"
  by (simp add: titled_def createWordDocument_def Let_def)

lemma downloadWordFile_titled:
  "doc \<in> set (documents (downloadWordFile st)) \<Longrightarrow> titled st doc"
  by (auto simp: downloadWordFile_def Let_def documents_append documents_concat case_prod_beta
      splitArtifact_titled whole_titled split: if_splits)

lemma downloadAllStep_titled:
  "doc \<in> set (documents (downloadAllStep st i)) \<Longrightarrow> titled st doc"
  by (auto simp: downloadAllStep_def Let_def documents_concat case_prod_beta
      splitArtifact_titled whole_titled split: if_splits)

lemma downloadAllWordFiles_titled:
  "doc \<in> set (documents (downloadAllWordFiles st)) \<Longrightarrow> titled st doc"
  by (auto simp: downloadAllWordFiles_def Let_def documents_append documents_concat
      downloadAllStep_titled split: if_splits)

lemma zip_file_docs: "set (map snd (zip_file z p b)) \<subseteq> insert b (set (map snd z))"
  by (induction z p b rule: zip_file.induct) auto

lemma archive_docs:
  "set (map snd (foldl folder_file z xs)) \<subseteq> set (map snd z) \<union> set (map snd xs)"
proof (induction xs arbitrary: z)
  case Nil
  then show ?case by simp
next
  case (Cons x xs)
  have "set (map snd (folder_file z x)) \<subseteq> insert (snd x) (set (map snd z))"
    unfolding folder_file_def by (rule zip_file_docs)
  with Cons.IH [of "folder_file z x"] show ?case by auto
qed

lemma zipStep_titled: "nb \<in> set (zipStep st i) \<Longrightarrow> titled st (snd nb)"
  by (auto simp: zipStep_def Let_def splitArtifact_titled whole_titled split: if_splits)

lemma downloadZipFile_titled:
  assumes "doc \<in> set (documents (downloadZipFile st))"
  shows "titled st doc"
proof -
  from assms have "doc \<in> set (map snd (zipArchive st))"
    by (auto simp: downloadZipFile_def Let_def split: if_splits)
  with archive_docs [of "[]" "zipAdded st"] have "doc \<in> set (map snd (zipAdded st))"
    unfolding zipArchive_def by auto
  then obtain nb i where "nb \<in> set (zipStep st i)" and "doc = snd nb"
    by (auto simp: zipAdded_def)
  then show ?thesis by (simp add: zipStep_titled)
qed

text \<open>
  C1, as the specification states it: the title of the rendered document starts with the
  display name of the source table. The title that \<open>createWordDocument\<close> writes starts with
  the fixed words "Packing Sheet" for every table: for the table named "report" it is
  "Packing Sheet", and with the suffix "Alice" it is "Packing Sheet Alice".
\<close>

theorem createWordDocument_title_counterexample:
  "title_text (createWordDocument
      \<lparr>name = ''report'', data = [[Str ''a'']], originalName = ''report.xlsx''\<rparr>
      False (Str [])) = ''Packing Sheet''
   \<and> title_text (createWordDocument
      \<lparr>name = ''report'', data = [[Str ''a'']], originalName = ''report.xlsx''\<rparr>
      False (Str [])) \<noteq> name \<lparr>name = ''report'', data = [[Str ''a'']], originalName = ''report.xlsx''\<rparr>
   \<and> title_text (createWordDocument
      \<lparr>name = ''report'', data = [[Str ''a'']], originalName = ''report.xlsx''\<rparr>
      False (Str ''Alice'')) = ''Packing Sheet Alice''"
  by (simp add: createWordDocument_def)

text \<open>
  C1, amended: for every source table, the document that an export renders begins with a
  bold title paragraph whose text is the fixed title "Packing Sheet", followed by a space
  and the title suffix when the suffix counts as true (for a string: is not empty). The
  display name of the table has no part in the document. Every document that one of the
  three exports hands over has such a title: "Packing Sheet" alone when the columns are
  not split, "Packing Sheet" and the resolved group name when they are.
\<close>

theorem createWordDocument_title:
  "title_text (createWordDocument fd tr suffix)
     = ''Packing Sheet'' @ (if truthy suffix then '' '' @ toString suffix else [])
   \<and> title_bold (createWordDocument fd tr suffix)
   \<and> createWordDocument (fd\<lparr>name := n\<rparr>) tr suffix = createWordDocument fd tr suffix
   \<and> title_text (snd (splitArtifact fd pair i))
       = ''Packing Sheet '' @ toString (familyName pair i)
   \<and> (\<forall>doc \<in> set (documents (downloadWordFile st) @ documents (downloadAllWordFiles st)
                     @ documents (downloadZipFile st)). titled st doc)"
proof -
  have "\<forall>doc \<in> set (documents (downloadWordFile st) @ documents (downloadAllWordFiles st)
                     @ documents (downloadZipFile st)). titled st doc"
    using downloadWordFile_titled downloadAllWordFiles_titled downloadZipFile_titled
    by auto
  then show ?thesis
    by (simp add: createWordDocument_def splitArtifact_def Let_def familyName_truthy)
qed

theorem createWordDocument_title_witness:
  "\<lparr>title_text = ''Packing Sheet Alice'', title_bold = True, title_size = 32,
     spacing_after = 200, table_rows = [[''Name'', ''Alice'']]\<rparr>
     \<in> set (documents (downloadZipFile
          \<lparr>files = [\<lparr>name = ''f'', data = [[Str ''Name'', Str ''Alice'']], originalName = ''f.xlsx''\<rparr>,
                    \<lparr>name = ''g'', data = [[Str ''Name'', Str ''Bob'']], originalName = ''g.xlsx''\<rparr>],
           selectedFileIndex = 0, transpose_flag = False, splitColumns = True\<rparr>))
   \<and> titled
        \<lparr>files = [\<lparr>name = ''f'', data = [[Str ''Name'', Str ''Alice'']], originalName = ''f.xlsx''\<rparr>,
                  \<lparr>name = ''g'', data = [[Str ''Name'', Str ''Bob'']], originalName = ''g.xlsx''\<rparr>],
         selectedFileIndex = 0, transpose_flag = False, splitColumns = True\<rparr>
        \<lparr>title_text = ''Packing Sheet Alice'', title_bold = True, title_size = 32,
          spacing_after = 200, table_rows = [[''Name'', ''Alice'']]\<rparr>"
proof -
  let ?st = "\<lparr>files = [\<lparr>name = ''f'', data = [[Str ''Name'', Str ''Alice'']], originalName = ''f.xlsx''\<rparr>,
                  \<lparr>name = ''g'', data = [[Str ''Name'', Str ''Bob'']], originalName = ''g.xlsx''\<rparr>],
         selectedFileIndex = 0, transpose_flag = False, splitColumns = True\<rparr>"
  let ?doc = "\<lparr>title_text = ''Packing Sheet Alice'', title_bold = True, title_size = 32,
          spacing_after = 200, table_rows = [[''Name'', ''Alice'']]\<rparr>"
  let ?doc' = "\<lparr>title_text = ''Packing Sheet Bob'', title_bold = True, title_size = 32,
          spacing_after = 200, table_rows = [[''Name'', ''Bob'']]\<rparr>"
  have docs: "documents (downloadZipFile ?st) = [?doc, ?doc']"
    by code_simp
  then have mem: "?doc \<in> set (documents (downloadZipFile ?st))"
    by simp
  from createWordDocument_title [of _ _ _ _ _ _ ?st] have
    "\<forall>doc \<in> set (documents (downloadWordFile ?st) @ documents (downloadAllWordFiles ?st)
                     @ documents (downloadZipFile ?st)). titled ?st doc"
    by blast
  with mem have "titled ?st ?doc" by simp
  with mem show ?thesis by simp
qed

end
